theory Spec2Isabelle
  imports Main "HOL-Library.Word" "HOL-Library.AList"
begin

section \<open>Strings as the source uses them\<close>

text \<open>
  Header values and tags are JavaScript strings. HTTP header values are byte strings, so a
  string is modelled as a list of 8-bit characters. The white space of the regular
  expression class \<open>\s\<close> and of \<open>String.prototype.trim\<close> is the same set; within the 8-bit
  range it is TAB, LF, VT, FF, CR, SPACE and NBSP.
\<close>

definition is_space :: "char \<Rightarrow> bool" where
  "is_space c = (c \<in> set [CHR 0x09, CHR 0x0A, CHR 0x0B, CHR 0x0C, CHR 0x0D, CHR 0x20, CHR 0xA0])"

text \<open>\<open>s.trim()\<close>: white space removed from both ends.\<close>

definition trim :: "string \<Rightarrow> string" where
  "trim s = rev (dropWhile is_space (rev (dropWhile is_space s)))"

text \<open>
  \<open>h.toLowerCase()\<close> on an 8-bit string: the letters A-Z and the Latin-1 capitals
  (0xC0-0xDE without the multiplication sign 0xD7) move up by 32.
\<close>

definition lower_char :: "char \<Rightarrow> char" where
  "lower_char c =
     (let n = (of_char c :: nat)
      in if (65 \<le> n \<and> n \<le> 90) \<or> (192 \<le> n \<and> n \<le> 222 \<and> n \<noteq> 215)
         then char_of (n + 32) else c)"

definition toLowerCase :: "string \<Rightarrow> string" where
  "toLowerCase s = map lower_char s"

text \<open>The template literal that puts a digest between double quotes (line 128).\<close>

definition dquote :: char where
  "dquote = CHR 0x22"

definition quoted :: "string \<Rightarrow> string" where
  "quoted h = [dquote] @ h @ [dquote]"

subsection \<open>stripWeak (index.ts, lines 147-149)\<close>

text \<open>\<open>tag.replace(/^W\//, '')\<close>: one leading \<open>W/\<close> is removed when the tag starts with it.\<close>

definition stripWeak :: "string \<Rightarrow> string" where
  "stripWeak tag = (if take 2 tag = ''W/'' then drop 2 tag else tag)"

subsection \<open>Splitting on \<open>/\s*,\s*/\<close>\<close>

text \<open>
  \<open>match_separator s\<close> is the sticky match of \<open>/\s*,\s*/\<close> at the start of \<open>s\<close>: the greedy
  \<open>\s*\<close> takes the whole run of white space, a comma must follow, and the second \<open>\s*\<close>
  takes the white space after it. The result is the text after the match.
\<close>

definition match_separator :: "string \<Rightarrow> string option" where
  "match_separator s =
     (case dropWhile is_space s of
        [] \<Rightarrow> None
      | c # r \<Rightarrow> if c = CHR '','' then Some (dropWhile is_space r) else None)"

lemma match_separator_shorter:
  assumes "match_separator s = Some r"
  shows "length r < length s"
proof -
  from assms obtain t where t: "dropWhile is_space s = CHR '','' # t"
    and r: "r = dropWhile is_space t"
    by (auto simp: match_separator_def split: list.splits if_splits)
  have "length r \<le> length t"
    using r by (simp add: length_dropWhile_le)
  moreover have "length (CHR '','' # t) \<le> length s"
    using length_dropWhile_le [of is_space s] t by simp
  ultimately show ?thesis by simp
qed

text \<open>
  \<open>String.prototype.split\<close> with a regular expression walks the string from the left: at
  each position it tries the sticky match; on success the piece collected so far is
  emitted and the walk resumes after the match, otherwise the character joins the piece.
  The piece open at the end of the string is emitted too, so the empty string gives one
  empty piece.
\<close>

function split_from :: "string \<Rightarrow> string \<Rightarrow> string list" where
  "split_from piece [] = [piece]"
| "split_from piece (c # cs) =
     (case match_separator (c # cs) of
        Some r \<Rightarrow> piece # split_from [] r
      | None \<Rightarrow> split_from (piece @ [c]) cs)"
  by pat_completeness auto
termination
  by (relation "measure (\<lambda>(piece, s). length s)") (auto dest: match_separator_shorter)

definition split_commas :: "string \<Rightarrow> string list" where
  "split_commas s = split_from [] s"

subsection \<open>etagMatches (index.ts, lines 151-156)\<close>

definition etagMatches :: "string \<Rightarrow> string option \<Rightarrow> string \<Rightarrow> bool" where
  "etagMatches etag ifNoneMatch method =
     (case ifNoneMatch of
        None \<Rightarrow> False
      | Some v \<Rightarrow>
          if v = ''*'' then method = ''GET'' \<or> method = ''HEAD''
          else list_ex (\<lambda>t. stripWeak t = stripWeak etag) (split_commas v))"

section \<open>The digest accumulator (digest.ts)\<close>

type_synonym byte = "8 word"

type_synonym generator = "byte list \<Rightarrow> byte list"

text \<open>
  \<open>mergeBuffers\<close> (lines 1-9): the first buffer is \<open>undefined\<close> before the first chunk; a
  \<open>Uint8Array\<close>, also an empty one, is truthy.
\<close>

definition mergeBuffers :: "byte list option \<Rightarrow> byte list \<Rightarrow> byte list" where
  "mergeBuffers buffer1 buffer2 =
     (case buffer1 of None \<Rightarrow> buffer2 | Some b1 \<Rightarrow> b1 @ buffer2)"

text \<open>
  The reading loop (lines 18-22) over the chunks the reader still holds: every
  \<open>reader.read()\<close> takes the first one, and \<open>done\<close> is the empty list. The result is the
  accumulated buffer and what is left in the stream.
\<close>

fun read_loop :: "byte list list \<Rightarrow> byte list option \<Rightarrow> byte list option \<times> byte list list" where
  "read_loop [] accumulated = (accumulated, [])"
| "read_loop (v # rest) accumulated = read_loop rest (Some (mergeBuffers accumulated v))"

text \<open>\<open>x.toString(16).padStart(2, '0')\<close> for a byte \<open>x\<close>.\<close>

definition hex_alphabet :: string where
  "hex_alphabet = ''0123456789abcdef''"

definition hex_digit :: "nat \<Rightarrow> char" where
  "hex_digit d = hex_alphabet ! d"

fun toString16 :: "nat \<Rightarrow> string" where
  "toString16 n = (if n < 16 then [hex_digit n] else toString16 (n div 16) @ [hex_digit (n mod 16)])"

declare toString16.simps [simp del]

definition padStart2 :: "string \<Rightarrow> string" where
  "padStart2 s = replicate (2 - length s) CHR ''0'' @ s"

definition hex_encode :: "byte list \<Rightarrow> string" where
  "hex_encode bs = concat (map (\<lambda>x. padStart2 (toString16 (unat x))) bs)"

text \<open>
  Streams live in a store: a stream is a position in \<open>streams\<close>, and the entry is the list
  of chunks it has still to deliver. \<open>digest_calls\<close> records every buffer the hash
  function has been invoked on, in order.
\<close>

record runtime =
  streams :: "byte list list list"
  digest_calls :: "byte list list"

definition stream_at :: "byte list list list \<Rightarrow> nat \<Rightarrow> byte list list" where
  "stream_at ss r = (if r < length ss then ss ! r else [])"

text \<open>\<open>generateDigest\<close> (lines 11-28). A \<open>null\<close> stream is \<open>None\<close>.\<close>

definition generateDigest :: "nat option \<Rightarrow> generator \<Rightarrow> runtime \<Rightarrow> string option \<times> runtime" where
  "generateDigest stream gen rt =
     (case stream of
        None \<Rightarrow> (None, rt)
      | Some r \<Rightarrow>
          (case read_loop (stream_at (streams rt) r) None of
             (accumulated, rest) \<Rightarrow>
               let rt1 = rt\<lparr>streams := (streams rt)[r := rest]\<rparr>
               in (case accumulated of
                     None \<Rightarrow> (None, rt1)
                   | Some buf \<Rightarrow>
                       (Some (hex_encode (gen buf)),
                        rt1\<lparr>digest_calls := digest_calls rt1 @ [buf]\<rparr>))))"

section \<open>The framework's request and response\<close>

text \<open>
  Modelled from the spec: the request and response views of the host framework (the
  \<open>hoa\<close> package, section 6 of the specification). Headers are looked up, set and
  deleted by name without regard to case, so the store is keyed by the lower-cased name;
  enumerating the headers gives those keys. The body is a stream or \<open>null\<close>.
\<close>

definition header_key_char :: "char \<Rightarrow> char" where
  "header_key_char c =
     (let n = (of_char c :: nat) in if 65 \<le> n \<and> n \<le> 90 then char_of (n + 32) else c)"

definition header_key :: "string \<Rightarrow> string" where
  "header_key name = map header_key_char name"

record request =
  req_method :: string
  req_headers :: "(string \<times> string) list"

record response =
  res_status :: int
  res_headers :: "(string \<times> string) list"
  res_body :: "nat option"

record hoa_context =
  req :: request
  res :: response
  env :: runtime

definition req_get :: "string \<Rightarrow> hoa_context \<Rightarrow> string option" where
  "req_get name ctx = map_of (req_headers (req ctx)) (header_key name)"

definition res_get :: "string \<Rightarrow> hoa_context \<Rightarrow> string option" where
  "res_get name ctx = map_of (res_headers (res ctx)) (header_key name)"

definition res_set :: "string \<Rightarrow> string \<Rightarrow> hoa_context \<Rightarrow> hoa_context" where
  "res_set name v ctx =
     ctx\<lparr>res := (res ctx)\<lparr>res_headers := AList.update (header_key name) v (res_headers (res ctx))\<rparr>\<rparr>"

definition res_delete :: "string \<Rightarrow> hoa_context \<Rightarrow> hoa_context" where
  "res_delete name ctx =
     ctx\<lparr>res := (res ctx)\<lparr>res_headers := AList.delete (header_key name) (res_headers (res ctx))\<rparr>\<rparr>"

definition header_names :: "hoa_context \<Rightarrow> string list" where
  "header_names ctx = map fst (res_headers (res ctx))"

text \<open>
  Modelled from the spec: \<open>ctx.response.body\<close>, the framework's "independent readable
  snapshot of the body without disturbing the body that will ultimately be sent to the
  client" (section 6). The snapshot is a new stream holding the chunks of the body.
\<close>

definition response_body :: "hoa_context \<Rightarrow> nat option \<times> hoa_context" where
  "response_body ctx =
     (case res_body (res ctx) of
        None \<Rightarrow> (None, ctx)
      | Some r \<Rightarrow>
          (Some (length (streams (env ctx))),
           ctx\<lparr>env := (env ctx)\<lparr>streams := streams (env ctx) @ [stream_at (streams (env ctx)) r]\<rparr>\<rparr>))"

section \<open>The ETag middleware (index.ts, lines 79-176)\<close>

text \<open>
  \<open>index.ts\<close> holds two revisions of the middleware. The later one (lines 79-176) is the
  one the tests exercise: it quotes the digest, trims \<open>If-None-Match\<close>, treats the
  wildcard, looks at the status and empties the body. It is the one modelled here. The
  earlier one (lines 1-78) does none of that and emits the digest without quotes.
\<close>

record ETagOptions =
  retainedHeaders :: "string list option"
  weak :: "bool option"
  generateDigest_option :: "generator option"

definition RETAINED_304_HEADERS :: "string list" where
  "RETAINED_304_HEADERS =
     [''cache-control'', ''content-location'', ''date'', ''etag'', ''expires'', ''vary'']"

text \<open>
  \<open>initializeGenerator\<close> (lines 158-174). The platform's \<open>crypto.subtle\<close> SHA-1 is a
  parameter: \<open>None\<close> when \<open>crypto?.subtle\<close> is missing.
\<close>

definition initializeGenerator :: "generator option \<Rightarrow> generator option \<Rightarrow> generator option" where
  "initializeGenerator platform_sha1 gen =
     (case gen of None \<Rightarrow> platform_sha1 | Some g \<Rightarrow> Some g)"

text \<open>
  Lines 119-129 of \<open>etagMiddleware\<close>: the ETag of the response. \<open>None\<close> stands for the two
  early returns; \<open>!etag\<close> holds for a missing header and for the empty string.
\<close>

definition determine_etag :: "bool \<Rightarrow> generator option \<Rightarrow> hoa_context \<Rightarrow> string option \<times> hoa_context" where
  "determine_etag weak_flag generator ctx =
     (let etag = res_get ''ETag'' ctx
      in if etag = None \<or> etag = Some []
         then (case generator of
                 None \<Rightarrow> (None, ctx)
               | Some g \<Rightarrow>
                   (case response_body ctx of
                      (stream, ctx1) \<Rightarrow>
                        (case generateDigest stream g (env ctx1) of
                           (hash, rt2) \<Rightarrow>
                             (case hash of
                                None \<Rightarrow> (None, ctx1\<lparr>env := rt2\<rparr>)
                              | Some h \<Rightarrow>
                                  (Some (if weak_flag then ''W/'' @ quoted h else quoted h),
                                   ctx1\<lparr>env := rt2\<rparr>)))))
         else (etag, ctx))"

text \<open>
  Lines 136-142: the body becomes \<open>null\<close>, the status 304, and the loop over the header
  names deletes every name that the retained list does not include.
\<close>

definition downgrade_304 :: "string list \<Rightarrow> hoa_context \<Rightarrow> hoa_context" where
  "downgrade_304 retained ctx =
     (let ctx1 = ctx\<lparr>res := (res ctx)\<lparr>res_body := None\<rparr>\<rparr>;
          ctx2 = ctx1\<lparr>res := (res ctx1)\<lparr>res_status := 304\<rparr>\<rparr>
      in fold (\<lambda>h c. if h \<notin> set retained then res_delete h c else c) (header_names ctx2) ctx2)"

text \<open>
  \<open>etagMiddleware\<close> (lines 113-144). \<open>next\<close> is the downstream handler chain, run on the
  context after the method and the trimmed \<open>If-None-Match\<close> have been read.
\<close>

definition etagMiddleware ::
  "string list \<Rightarrow> bool \<Rightarrow> generator option \<Rightarrow> (hoa_context \<Rightarrow> hoa_context) \<Rightarrow> hoa_context \<Rightarrow> hoa_context" where
  "etagMiddleware retained weak_flag generator next ctx =
     (let method = req_method (req ctx);
          ifNoneMatch = map_option trim (req_get ''If-None-Match'' ctx);
          ctx1 = next ctx
      in case determine_etag weak_flag generator ctx1 of
           (None, ctx2) \<Rightarrow> ctx2
         | (Some etag, ctx2) \<Rightarrow>
             (let ctx3 = res_set ''ETag'' etag ctx2;
                  status = res_status (res ctx3)
              in if 200 \<le> status \<and> status < 300 \<and> etagMatches etag ifNoneMatch method
                 then downgrade_304 retained ctx3
                 else ctx3))"

text \<open>
  \<open>etag\<close> (lines 106-145): the options are resolved once, when the middleware is built.
  \<open>retained_of\<close> is lines 107-109: a given list is lower-cased, a missing one is the default.
\<close>

definition retained_of :: "ETagOptions \<Rightarrow> string list" where
  "retained_of options =
     (case retainedHeaders options of
        Some hs \<Rightarrow> map toLowerCase hs
      | None \<Rightarrow> RETAINED_304_HEADERS)"

definition etag ::
  "generator option \<Rightarrow> ETagOptions \<Rightarrow> (hoa_context \<Rightarrow> hoa_context) \<Rightarrow> hoa_context \<Rightarrow> hoa_context" where
  "etag platform_sha1 options =
     etagMiddleware
       (retained_of options)
       (case weak options of Some b \<Rightarrow> b | None \<Rightarrow> False)
       (initializeGenerator platform_sha1 (generateDigest_option options))"

section \<open>Observations on a request\<close>

text \<open>
  The condition of line 135, on the ETag \<open>e\<close>, the context on entry and the context the
  downstream handler left.
\<close>

definition should_return_304 :: "string \<Rightarrow> hoa_context \<Rightarrow> hoa_context \<Rightarrow> bool" where
  "should_return_304 e ctx handled =
     (200 \<le> res_status (res handled) \<and> res_status (res handled) < 300 \<and>
      etagMatches e (map_option trim (req_get ''If-None-Match'' ctx)) (req_method (req ctx)))"

text \<open>
  The downgrade is the only assignment to the status, and it needs a status from 200 to
  299: the middleware has performed it when the final status is 304 and the handler's was
  not.
\<close>

definition performs_304 :: "hoa_context \<Rightarrow> hoa_context \<Rightarrow> bool" where
  "performs_304 handled final =
     (res_status (res final) = 304 \<and> res_status (res handled) \<noteq> 304)"

text \<open>
  The framework stores a header under its lower-cased name, so the names it enumerates
  are their own keys.
\<close>

definition stored_names_normalised :: "hoa_context \<Rightarrow> bool" where
  "stored_names_normalised ctx = list_all (\<lambda>h. header_key h = h) (header_names ctx)"

text \<open>
  The encoding as the specification words it: two lower-case hexadecimal characters for
  each byte, the high digit first.
\<close>

definition hex_pair :: "byte \<Rightarrow> string" where
  "hex_pair x = [hex_digit (unat x div 16), hex_digit (unat x mod 16)]"

text \<open>
  The 304 condition as the specification words it (section 8): a status from 200 to 299,
  and either the wildcard with GET or HEAD, or a candidate of the list that equals the
  ETag once the weak prefixes are stripped.
\<close>

definition claimed_304_condition :: "string \<Rightarrow> string option \<Rightarrow> string \<Rightarrow> int \<Rightarrow> bool" where
  "claimed_304_condition e ifNoneMatch m st =
     (200 \<le> st \<and> st < 300 \<and>
      (case ifNoneMatch of
         None \<Rightarrow> False
       | Some raw \<Rightarrow>
           (trim raw = ''*'' \<and> (m = ''GET'' \<or> m = ''HEAD'')) \<or>
           list_ex (\<lambda>t. stripWeak t = stripWeak e) (split_commas (trim raw))))"

subsection \<open>Concrete requests, handlers and a hash function\<close>

text \<open>A context on entry: the request, an untouched response and no stream.\<close>

definition request_ctx :: "string \<Rightarrow> (string \<times> string) list \<Rightarrow> hoa_context" where
  "request_ctx m hs =
     \<lparr>req = \<lparr>req_method = m, req_headers = hs\<rparr>,
      res = \<lparr>res_status = 404, res_headers = [], res_body = None\<rparr>,
      env = \<lparr>streams = [], digest_calls = []\<rparr>\<rparr>"

text \<open>A handler that sets the status, the headers and the body (a new stream, or null).\<close>

definition respond ::
  "int \<Rightarrow> (string \<times> string) list \<Rightarrow> byte list list option \<Rightarrow> hoa_context \<Rightarrow> hoa_context" where
  "respond st hs b ctx =
     (case b of
        None \<Rightarrow> ctx\<lparr>res := \<lparr>res_status = st, res_headers = hs, res_body = None\<rparr>\<rparr>
      | Some chunks \<Rightarrow>
          ctx\<lparr>res := \<lparr>res_status = st, res_headers = hs,
                       res_body = Some (length (streams (env ctx)))\<rparr>,
              env := (env ctx)\<lparr>streams := streams (env ctx) @ [chunks]\<rparr>\<rparr>)"

text \<open>A two-byte stand-in for a hash function.\<close>

definition toy_hash :: generator where
  "toy_hash buf = [0x0a, of_nat (length buf)]"

section \<open>Auxiliary facts\<close>

subsection \<open>The digest\<close>

lemma read_loop_eq:
  "read_loop chunks acc =
     (if chunks = [] then acc else Some (mergeBuffers acc (concat chunks)), [])"
  by (induction chunks arbitrary: acc) (auto simp: mergeBuffers_def split: option.splits)

lemma toString16_byte:
  assumes "n < 256"
  shows "padStart2 (toString16 n) = [hex_digit (n div 16), hex_digit (n mod 16)]"
proof (cases "n < 16")
  case True
  moreover have "hex_digit 0 = CHR ''0''"
    by (simp add: hex_digit_def hex_alphabet_def)
  ultimately show ?thesis
    by (simp add: toString16.simps [of n] padStart2_def)
next
  case False
  moreover have "n div 16 < 16" using assms by simp
  ultimately show ?thesis
    by (simp add: toString16.simps [of n] toString16.simps [of "n div 16"] padStart2_def)
qed

lemma unat_byte_less: "unat (x :: byte) < 256"
  using unsigned_less [of x, where 'a = nat] by simp

lemma byte_hex_pair: "padStart2 (toString16 (unat x)) = hex_pair x"
  by (simp add: toString16_byte unat_byte_less hex_pair_def)

lemma hex_encode_pairs: "hex_encode bs = concat (map hex_pair bs)"
  by (simp add: hex_encode_def byte_hex_pair)

lemma length_hex_encode: "length (hex_encode bs) = 2 * length bs"
  by (induction bs) (simp_all add: hex_encode_pairs hex_pair_def)

lemma hex_digit_lower: "d < 16 \<Longrightarrow> hex_digit d \<in> set hex_alphabet"
  unfolding hex_digit_def by (rule nth_mem) (simp add: hex_alphabet_def)

lemma hex_pair_chars: "set (hex_pair x) \<subseteq> set hex_alphabet"
proof -
  have "unat x div 16 < 16" using unat_byte_less [of x] by simp
  moreover have "unat x mod 16 < 16" by simp
  ultimately show ?thesis
    unfolding hex_pair_def using hex_digit_lower by simp
qed

lemma hex_encode_chars: "set (hex_encode bs) \<subseteq> set hex_alphabet"
  unfolding hex_encode_pairs using hex_pair_chars by (induction bs) simp_all

lemma generateDigest_none:
  "generateDigest None gen rt = (None, rt)"
  by (simp add: generateDigest_def)

subsection \<open>Splitting and stripping\<close>

lemma match_separator_no_comma:
  assumes "CHR '','' \<notin> set s"
  shows "match_separator s = None"
proof (cases "dropWhile is_space s")
  case Nil
  show ?thesis
    unfolding match_separator_def Nil by simp
next
  case (Cons c r)
  then have "c \<in> set s"
    by (metis list.set_intros(1) set_dropWhileD)
  with assms have "c \<noteq> CHR '',''" by auto
  then show ?thesis
    unfolding match_separator_def Cons by simp
qed

lemma split_from_no_comma:
  "CHR '','' \<notin> set s \<Longrightarrow> split_from piece s = [piece @ s]"
proof (induction s arbitrary: piece)
  case Nil
  then show ?case by simp
next
  case (Cons c cs)
  then have "match_separator (c # cs) = None"
    by (intro match_separator_no_comma) 
  with Cons show ?case by simp
qed

lemma split_from_length:
  "t \<in> set (split_from piece s) \<Longrightarrow> length t \<le> length piece + length s"
proof (induction piece s rule: split_from.induct)
  case (1 piece)
  then show ?case by simp
next
  case (2 piece c cs)
  show ?case
  proof (cases "match_separator (c # cs)")
    case None
    with 2 show ?thesis by simp
  next
    case (Some r)
    with 2 have "t = piece \<or> length t \<le> length r" by auto
    moreover have "length r < length (c # cs)"
      using Some by (rule match_separator_shorter)
    ultimately show ?thesis by auto
  qed
qed

lemma split_from_piece:
  "t \<in> set (split_from piece s) \<Longrightarrow> (\<exists>p. t = piece @ p) \<or> length t < length s"
proof (induction piece s rule: split_from.induct)
  case (1 piece)
  then show ?case by simp
next
  case (2 piece c cs)
  show ?case
  proof (cases "match_separator (c # cs)")
    case None
    with 2 have "(\<exists>p. t = (piece @ [c]) @ p) \<or> length t < length cs" by simp
    then show ?thesis by auto
  next
    case (Some r)
    with 2 have "t = piece \<or> t \<in> set (split_from [] r)" by simp
    moreover have "length r < length (c # cs)"
      using Some by (rule match_separator_shorter)
    ultimately show ?thesis
      using split_from_length [of t "[]" r] by auto
  qed
qed

lemma trim_id:
  assumes "s \<noteq> []" and "\<not> is_space (hd s)" and "\<not> is_space (last s)"
  shows "trim s = s"
proof -
  have "dropWhile is_space s = s"
    using assms by (cases s) simp_all
  moreover have "dropWhile is_space (rev s) = rev s"
    using assms by (cases "rev s") (simp_all add: last_rev [symmetric] hd_rev)
  ultimately show ?thesis by (simp add: trim_def)
qed

lemma length_stripWeak: "length (stripWeak t) \<le> length t"
  by (simp add: stripWeak_def)

lemma etagMatches_list:
  "v \<noteq> ''*'' \<Longrightarrow>
   etagMatches e (Some v) m = (\<exists>t\<in>set (split_commas v). stripWeak t = stripWeak e)"
  by (simp add: etagMatches_def list_ex_iff)

lemma lowercase_weak_never_matches:
  "\<not> etagMatches (quoted d) (map_option trim (Some (''w/'' @ quoted d))) m"
proof -
  let ?e = "quoted d"
  let ?v = "''w/'' @ ?e"
  have tr: "trim ?v = ?v"
    by (rule trim_id) (simp_all add: is_space_def quoted_def dquote_def)
  have ne: "?v \<noteq> ''*''" by simp
  have sp: "split_commas ?v = split_from ''w/'' ?e"
    by (simp add: split_commas_def match_separator_def is_space_def)
  have se: "stripWeak ?e = ?e"
    by (simp add: stripWeak_def quoted_def dquote_def)
  have "stripWeak t \<noteq> ?e" if "t \<in> set (split_from ''w/'' ?e)" for t
  proof -
    from split_from_piece [OF that]
    consider p where "t = ''w/'' @ p" | "length t < length ?e" by blast
    then show ?thesis
    proof cases
      case 1
      then show ?thesis by (simp add: stripWeak_def quoted_def dquote_def)
    next
      case 2
      then have "length (stripWeak t) < length ?e"
        using length_stripWeak [of t] by simp
      then show ?thesis by auto
    qed
  qed
  then show ?thesis
    unfolding option.map tr by (simp only: etagMatches_list [OF ne] sp se) blast
qed

subsection \<open>The ETag of a response\<close>

lemma determine_etag_existing:
  assumes "res_get ''ETag'' ctx = Some e" and "e \<noteq> []"
  shows "determine_etag w g ctx = (Some e, ctx)"
  using assms by (simp add: determine_etag_def)

lemma determine_etag_no_generator:
  assumes "res_get ''ETag'' ctx = None \<or> res_get ''ETag'' ctx = Some []"
  shows "determine_etag w None ctx = (None, ctx)"
  using assms by (auto simp: determine_etag_def)

lemma determine_etag_res:
  "res (snd (determine_etag w g ctx)) = res ctx"
  by (auto simp: determine_etag_def Let_def response_body_def split: option.splits prod.splits)

lemma generateDigest_eq:
  "generateDigest (Some r) gen rt0 =
     (if stream_at (streams rt0) r = []
      then (None, rt0\<lparr>streams := (streams rt0)[r := []]\<rparr>)
      else (Some (hex_encode (gen (concat (stream_at (streams rt0) r)))),
            rt0\<lparr>streams := (streams rt0)[r := []],
                digest_calls := digest_calls rt0 @ [concat (stream_at (streams rt0) r)]\<rparr>))"
  by (simp add: generateDigest_def read_loop_eq mergeBuffers_def)

lemma determine_etag_fresh:
  assumes "res_get ''ETag'' ctx = None \<or> res_get ''ETag'' ctx = Some []"
  shows "determine_etag w (Some g) ctx =
     (case res_body (res ctx) of
        None \<Rightarrow> (None, ctx)
      | Some r \<Rightarrow>
          if stream_at (streams (env ctx)) r = []
          then (None, ctx\<lparr>env := (env ctx)\<lparr>streams := streams (env ctx) @ [[]]\<rparr>\<rparr>)
          else (Some (if w then ''W/'' @ quoted (hex_encode (g (concat (stream_at (streams (env ctx)) r))))
                      else quoted (hex_encode (g (concat (stream_at (streams (env ctx)) r))))),
                ctx\<lparr>env := (env ctx)\<lparr>streams := streams (env ctx) @ [[]],
                     digest_calls := digest_calls (env ctx) @ [concat (stream_at (streams (env ctx)) r)]\<rparr>\<rparr>))"
proof (cases "res_body (res ctx)")
  case None
  with assms show ?thesis
    by (auto simp: determine_etag_def response_body_def generateDigest_def)
next
  case (Some r)
  have at: "stream_at (ss @ [x]) (length ss) = x" for ss :: "byte list list list" and x
    by (simp add: stream_at_def)
  from assms Some show ?thesis
    by (auto simp: determine_etag_def response_body_def generateDigest_eq at)
qed

lemma determine_etag_streams:
  "streams (env (snd (determine_etag w g ctx))) = streams (env ctx) \<or>
   streams (env (snd (determine_etag w g ctx))) = streams (env ctx) @ [[]]"
proof (cases "res_get ''ETag'' ctx = None \<or> res_get ''ETag'' ctx = Some []")
  case False
  then show ?thesis by (auto simp: determine_etag_def)
next
  case True
  show ?thesis
  proof (cases g)
    case None
    with True show ?thesis by (simp add: determine_etag_no_generator)
  next
    case (Some gen)
    show ?thesis
      unfolding Some determine_etag_fresh [OF True] by (simp split: option.splits)
  qed
qed

subsection \<open>The downgrade and the header store\<close>

lemma header_key_ETag: "header_key ''ETag'' = ''etag''"
  by code_simp

lemma delete_loop_frame:
  "res_status (res (fold (\<lambda>h c. if h \<notin> set retained then res_delete h c else c) names ctx)) = res_status (res ctx) \<and>
   res_body (res (fold (\<lambda>h c. if h \<notin> set retained then res_delete h c else c) names ctx)) = res_body (res ctx) \<and>
   req (fold (\<lambda>h c. if h \<notin> set retained then res_delete h c else c) names ctx) = req ctx \<and>
   env (fold (\<lambda>h c. if h \<notin> set retained then res_delete h c else c) names ctx) = env ctx"
  by (induction names arbitrary: ctx) (simp_all add: res_delete_def)

lemma delete_loop_headers:
  "map_of (res_headers (res (fold (\<lambda>h c. if h \<notin> set retained then res_delete h c else c) names ctx))) k =
     (if \<exists>h\<in>set names. h \<notin> set retained \<and> header_key h = k then None
      else map_of (res_headers (res ctx)) k)"
proof (induction names arbitrary: ctx)
  case Nil
  then show ?case by simp
next
  case (Cons h hs)
  show ?case
  proof (cases "h \<in> set retained")
    case True
    then show ?thesis using Cons [of ctx] by auto
  next
    case False
    have "map_of (res_headers (res (res_delete h ctx))) k =
            (if k = header_key h then None else map_of (res_headers (res ctx)) k)"
      by (simp add: res_delete_def delete_conv')
    with False show ?thesis using Cons [of "res_delete h ctx"] by auto
  qed
qed

lemma downgrade_304_frame:
  "res_status (res (downgrade_304 retained ctx)) = 304"
  "res_body (res (downgrade_304 retained ctx)) = None"
  "req (downgrade_304 retained ctx) = req ctx"
  "env (downgrade_304 retained ctx) = env ctx"
  by (simp_all add: downgrade_304_def Let_def delete_loop_frame)

lemma downgrade_304_headers:
  assumes "\<forall>h\<in>set (header_names ctx). header_key h = h"
  shows "res_get name (downgrade_304 retained ctx) =
           (if header_key name \<in> set retained then res_get name ctx else None)"
proof -
  let ?k = "header_key name"
  let ?c2 = "ctx\<lparr>res := (res ctx)\<lparr>res_body := None, res_status := 304\<rparr>\<rparr>"
  have names: "header_names ?c2 = header_names ctx" and hs: "res_headers (res ?c2) = res_headers (res ctx)"
    by (simp_all add: header_names_def)
  have dg: "downgrade_304 retained ctx =
      fold (\<lambda>h c. if h \<notin> set retained then res_delete h c else c) (header_names ctx) ?c2"
    by (simp add: downgrade_304_def Let_def header_names_def)
  have eq: "res_get name (downgrade_304 retained ctx) =
      (if \<exists>h\<in>set (header_names ctx). h \<notin> set retained \<and> header_key h = ?k then None
       else map_of (res_headers (res ctx)) ?k)"
    unfolding res_get_def dg delete_loop_headers hs ..
  show ?thesis
  proof (cases "?k \<in> set retained")
    case True
    have "\<not> (\<exists>h\<in>set (header_names ctx). h \<notin> set retained \<and> header_key h = ?k)"
      using assms True by auto
    then show ?thesis
      unfolding eq using True by (auto simp: res_get_def)
  next
    case False
    show ?thesis
    proof (cases "?k \<in> set (header_names ctx)")
      case True
      with False assms have "\<exists>h\<in>set (header_names ctx). h \<notin> set retained \<and> header_key h = ?k"
        by auto
      then show ?thesis
        unfolding eq using False by auto
    next
      case notin: False
      then have "map_of (res_headers (res ctx)) ?k = None"
        by (simp add: header_names_def map_of_eq_None_iff)
      then show ?thesis
        unfolding eq using False by auto
    qed
  qed
qed

lemma res_set_frame:
  "res_status (res (res_set name v ctx)) = res_status (res ctx)"
  "res_body (res (res_set name v ctx)) = res_body (res ctx)"
  "req (res_set name v ctx) = req ctx"
  "env (res_set name v ctx) = env ctx"
  by (simp_all add: res_set_def)

lemma res_get_res_set:
  "res_get name (res_set name' v ctx) =
     (if header_key name = header_key name' then Some v else res_get name ctx)"
  by (simp add: res_get_def res_set_def update_conv')

lemma header_names_res_set:
  "set (header_names (res_set name v ctx)) = insert (header_key name) (set (header_names ctx))"
  by (simp add: header_names_def res_set_def dom_update)

lemma res_get_cong: "res c = res c' \<Longrightarrow> res_get name c = res_get name c'"
  by (simp add: res_get_def)

lemma header_names_cong: "res c = res c' \<Longrightarrow> header_names c = header_names c'"
  by (simp add: header_names_def)

subsection \<open>The two ways through the middleware\<close>

lemma etagMiddleware_terminates_early:
  assumes "fst (determine_etag w g (handler ctx)) = None"
  shows "etagMiddleware retained w g handler ctx = snd (determine_etag w g (handler ctx))"
proof -
  obtain c2 where d: "determine_etag w g (handler ctx) = (None, c2)"
    using assms by (cases "determine_etag w g (handler ctx)") simp
  show ?thesis
    by (simp add: etagMiddleware_def Let_def d)
qed

lemma etagMiddleware_with_etag:
  assumes "fst (determine_etag w g (handler ctx)) = Some e"
  shows "etagMiddleware retained w g handler ctx =
           (if should_return_304 e ctx (handler ctx)
            then downgrade_304 retained (res_set ''ETag'' e (snd (determine_etag w g (handler ctx))))
            else res_set ''ETag'' e (snd (determine_etag w g (handler ctx))))"
proof -
  obtain c2 where d: "determine_etag w g (handler ctx) = (Some e, c2)"
    using assms by (cases "determine_etag w g (handler ctx)") simp
  have "res c2 = res (handler ctx)"
    using determine_etag_res [of w g "handler ctx"] d by simp
  then have "res_status (res (res_set ''ETag'' e c2)) = res_status (res (handler ctx))"
    by (simp add: res_set_frame)
  then show ?thesis
    by (simp add: etagMiddleware_def Let_def d should_return_304_def)
qed

lemma performs_304_iff:
  assumes "fst (determine_etag w g (handler ctx)) = Some e"
  shows "performs_304 (handler ctx) (etagMiddleware retained w g handler ctx) =
           should_return_304 e ctx (handler ctx)"
proof -
  let ?c2 = "snd (determine_etag w g (handler ctx))"
  note mw = etagMiddleware_with_etag [of w g handler ctx e retained, OF assms]
  have st: "res_status (res (res_set ''ETag'' e ?c2)) = res_status (res (handler ctx))"
    by (simp add: res_set_frame determine_etag_res)
  show ?thesis
  proof (cases "should_return_304 e ctx (handler ctx)")
    case True
    then have "res_status (res (handler ctx)) \<noteq> 304"
      by (auto simp: should_return_304_def)
    with True show ?thesis
      by (simp add: mw performs_304_def downgrade_304_frame)
  next
    case False
    then show ?thesis
      by (auto simp: mw performs_304_def st)
  qed
qed

lemma performs_304_needs_etag:
  assumes "fst (determine_etag w g (handler ctx)) = None"
  shows "\<not> performs_304 (handler ctx) (etagMiddleware retained w g handler ctx)"
  by (simp add: etagMiddleware_terminates_early [of w g handler ctx retained, OF assms]
      performs_304_def determine_etag_res)

subsection \<open>The ETag header after a downgrade, weak against strong\<close>

lemma header_key_etag: "header_key ''etag'' = ''etag''"
  by code_simp

lemma stored_names_res_set:
  assumes "stored_names_normalised ctx" and "res c2 = res ctx"
  shows "\<forall>h\<in>set (header_names (res_set ''ETag'' e c2)). header_key h = h"
proof -
  have "header_names c2 = header_names ctx"
    using assms(2) by (rule header_names_cong)
  then show ?thesis
    using assms(1)
    by (auto simp: header_names_res_set header_key_ETag header_key_etag
        stored_names_normalised_def list_all_iff)
qed

lemma downgraded_headers:
  assumes "stored_names_normalised ctx" and "res c2 = res ctx"
  shows "res_get name (downgrade_304 retained (res_set ''ETag'' e c2)) =
           (if header_key name \<notin> set retained then None
            else if header_key name = ''etag'' then Some e
            else res_get name ctx)"
proof -
  have "res_get name c2 = res_get name ctx"
    using assms(2) by (rule res_get_cong)
  then show ?thesis
    by (simp add: downgrade_304_headers [OF stored_names_res_set [OF assms]]
        res_get_res_set header_key_ETag)
qed

lemma quoted_no_wildcard: "quoted d \<noteq> ''*''"
  by (simp add: quoted_def)

lemma weak_matches_strong:
  assumes "CHR '','' \<notin> set d"
  shows "etagMatches (''W/'' @ quoted d) (map_option trim (Some (quoted d))) m"
proof -
  have tr: "trim (quoted d) = quoted d"
    by (rule trim_id) (simp_all add: is_space_def quoted_def dquote_def)
  have "CHR '','' \<notin> set (quoted d)"
    using assms by (simp add: quoted_def dquote_def)
  then have sp: "split_commas (quoted d) = [quoted d]"
    by (simp add: split_commas_def split_from_no_comma)
  have sw: "stripWeak (''W/'' @ quoted d) = quoted d" "stripWeak (quoted d) = quoted d"
    by (simp_all add: stripWeak_def quoted_def dquote_def)
  show ?thesis
    unfolding option.map tr
    by (simp add: etagMatches_list [OF quoted_no_wildcard] sp sw del: append.simps)
qed

lemma hex_encode_no_comma: "CHR '','' \<notin> set (hex_encode bs)"
proof -
  have "CHR '','' \<notin> set hex_alphabet"
    by (simp add: hex_alphabet_def)
  then show ?thesis
    using hex_encode_chars [of bs] by blast
qed

section \<open>Properties of the digest accumulator\<close>

text \<open>
  C3 (amended). For every stream that delivers at least one chunk and every hash
  function, \<open>generateDigest\<close> invokes the hash function exactly once, on the chunks
  concatenated in order, and returns its output as two lower-case hexadecimal characters
  for each byte, in byte order; the string is twice as long as the hash output. The
  stream is left drained.
\<close>

theorem generateDigest_hex:
  assumes "stream_at (streams rt0) r = chunks" and "chunks \<noteq> []"
  shows "generateDigest (Some r) gen rt0 =
           (Some (concat (map hex_pair (gen (concat chunks)))),
            rt0\<lparr>streams := (streams rt0)[r := []],
                digest_calls := digest_calls rt0 @ [concat chunks]\<rparr>) \<and>
         length (concat (map hex_pair (gen (concat chunks)))) = 2 * length (gen (concat chunks)) \<and>
         set (concat (map hex_pair (gen (concat chunks)))) \<subseteq> set hex_alphabet"
  using assms length_hex_encode [of "gen (concat chunks)"] hex_encode_chars [of "gen (concat chunks)"]
  by (simp add: generateDigest_eq hex_encode_pairs)

theorem generateDigest_hex_witness:
  "generateDigest (Some 0) toy_hash \<lparr>streams = [[[1, 2], [], [255]]], digest_calls = []\<rparr> =
     (Some ''0a03'', \<lparr>streams = [[]], digest_calls = [[1, 2, 255]]\<rparr>)"
proof -
  have h1: "stream_at (streams \<lparr>streams = [[[1, 2], [], [255]]], digest_calls = []\<rparr>) 0 = [[1, 2], [], [255]]"
    by (simp add: stream_at_def)
  have h2: "[[1, 2], [], [255 :: byte]] \<noteq> []"
    by simp
  have "concat (map hex_pair (toy_hash (concat [[1, 2], [], [255]]))) = ''0a03''"
    by code_simp
  with generateDigest_hex [OF h1 h2, of toy_hash] show ?thesis
    by simp
qed

text \<open>
  C3 as stated fails for the stream that delivers no chunk: the result is \<open>null\<close> and
  the hash function is not invoked.
\<close>

theorem generateDigest_hex_counterexample:
  "generateDigest (Some 0) toy_hash \<lparr>streams = [[]], digest_calls = []\<rparr> \<noteq>
     (Some (concat (map hex_pair (toy_hash (concat [])))),
      \<lparr>streams = [[]], digest_calls = [concat []]\<rparr>)"
  by (simp add: generateDigest_eq stream_at_def)

text \<open>
  C4 (amended). For an absent stream, and for a stream that delivers no chunk,
  \<open>generateDigest\<close> returns \<open>null\<close> (never a string) and does not invoke the hash
  function.
\<close>

theorem generateDigest_null:
  "generateDigest None gen rt0 = (None, rt0) \<and>
   (stream_at (streams rt0) r = [] \<longrightarrow>
      fst (generateDigest (Some r) gen rt0) = None \<and>
      digest_calls (snd (generateDigest (Some r) gen rt0)) = digest_calls rt0)"
  by (simp add: generateDigest_none generateDigest_eq)

theorem generateDigest_null_witness:
  "generateDigest None toy_hash \<lparr>streams = [[]], digest_calls = []\<rparr> =
     (None, \<lparr>streams = [[]], digest_calls = []\<rparr>) \<and>
   fst (generateDigest (Some 0) toy_hash \<lparr>streams = [[]], digest_calls = []\<rparr>) = None \<and>
   digest_calls (snd (generateDigest (Some 0) toy_hash \<lparr>streams = [[]], digest_calls = []\<rparr>)) = []"
proof -
  have h: "stream_at (streams \<lparr>streams = [[]], digest_calls = []\<rparr>) 0 = []"
    by (simp add: stream_at_def)
  with generateDigest_null [of toy_hash "\<lparr>streams = [[]], digest_calls = []\<rparr>" 0]
  show ?thesis by simp
qed

text \<open>
  C4 as stated fails for a stream whose only chunk has length zero: the accumulated
  buffer is an empty array, which is truthy, so the hash function is invoked on it and a
  digest of the empty content is returned.
\<close>

theorem generateDigest_null_counterexample:
  "generateDigest (Some 0) toy_hash \<lparr>streams = [[[]]], digest_calls = []\<rparr> =
     (Some ''0a00'', \<lparr>streams = [[]], digest_calls = [[]]\<rparr>)"
  by code_simp

section \<open>Properties of the tag comparison\<close>

text \<open>
  C9. \<open>stripWeak\<close> removes exactly one leading upper-case \<open>W/\<close> and is
  case-sensitive: \<open>W/W/t\<close> becomes \<open>W/t\<close>, a tag that starts with the lower-case \<open>w/\<close> is
  left as it is, and so the validator \<open>w/"d"\<close> never matches the ETag \<open>"d"\<close>, whatever
  the digest and the method.
\<close>

theorem stripWeak_case_sensitive:
  "stripWeak (''W/'' @ t) = t \<and>
   stripWeak (''W/W/'' @ t) = ''W/'' @ t \<and>
   stripWeak (''w/'' @ t) = ''w/'' @ t \<and>
   \<not> etagMatches (quoted d) (map_option trim (Some (''w/'' @ quoted d))) m"
  using lowercase_weak_never_matches [of d m] by (simp add: stripWeak_def)

theorem stripWeak_case_sensitive_witness:
  "stripWeak ''W/W/x'' = ''W/x'' \<and> stripWeak ''w/x'' = ''w/x'' \<and>
   \<not> etagMatches (quoted ''abc'') (Some (''w/'' @ quoted ''abc'')) ''GET''"
proof -
  have "trim (''w/'' @ quoted ''abc'') = ''w/'' @ quoted ''abc''"
    by code_simp
  with stripWeak_case_sensitive [of "''x''" "''abc''" "''GET''"] show ?thesis
    by simp
qed

text \<open>
  C10. The wildcard rule applies only when the whole trimmed \<open>If-None-Match\<close> value is
  \<open>*\<close>. For any other value the result is that of the comparison of the candidates, which
  does not depend on the method; a candidate \<open>*\<close> in a list is compared as a tag, and it
  matches exactly the ETags whose weak-stripped value is \<open>*\<close>.
\<close>

theorem wildcard_only_whole_value:
  assumes "trim raw \<noteq> ''*''"
  shows "etagMatches e (map_option trim (Some raw)) m =
           (\<exists>t\<in>set (split_commas (trim raw)). stripWeak t = stripWeak e) \<and>
         (stripWeak ''*'' = stripWeak e) = (stripWeak e = ''*'') \<and>
         (''*'' \<in> set (split_commas (trim raw)) \<and> stripWeak e = ''*'' \<longrightarrow>
            etagMatches e (map_option trim (Some raw)) m)"
proof -
  have star: "stripWeak ''*'' = ''*''"
    by (simp add: stripWeak_def)
  have "etagMatches e (Some (trim raw)) m =
          (\<exists>t\<in>set (split_commas (trim raw)). stripWeak t = stripWeak e)"
    using assms by (rule etagMatches_list)
  then show ?thesis
    using star by auto
qed

theorem wildcard_only_whole_value_witness:
  "split_commas (trim (''*, '' @ quoted ''abc'')) = [''*'', quoted ''abc''] \<and>
   \<not> etagMatches (quoted ''xyz'') (Some (trim (''*, '' @ quoted ''abc''))) ''GET'' \<and>
   etagMatches ''W/*'' (Some (trim (''*, '' @ quoted ''abc''))) ''POST''"
proof -
  have h: "trim (''*, '' @ quoted ''abc'') \<noteq> ''*''"
    by code_simp
  have s: "split_commas (trim (''*, '' @ quoted ''abc'')) = [''*'', quoted ''abc'']"
    by code_simp
  have "stripWeak ''*'' = ''*''" "stripWeak ''W/*'' = ''*''"
    "stripWeak (quoted ''abc'') \<noteq> stripWeak (quoted ''xyz'')" "stripWeak (quoted ''xyz'') \<noteq> ''*''"
    by code_simp+
  with wildcard_only_whole_value [OF h, of "quoted ''xyz''" "''GET''"]
    wildcard_only_whole_value [OF h, of "''W/*''" "''POST''"] s
  show ?thesis by simp
qed

section \<open>Properties of the middleware\<close>

text \<open>
  C1 (amended). The middleware performs the 304 downgrade if and only if the response has
  an ETag \<open>e\<close> (set by the handler, or computed), the handler's status is from 200 to 299,
  \<open>If-None-Match\<close> is present, and: when its trimmed value is \<open>*\<close>, the method is GET or
  HEAD; otherwise some candidate of the trimmed value, split on commas with optional
  white space around them, equals \<open>e\<close> once the weak prefixes are stripped. An absent
  \<open>If-None-Match\<close> and a status outside 200 to 299 never give a 304.
\<close>

theorem downgrade_condition:
  "performs_304 (handler ctx) (etagMiddleware retained w g handler ctx) =
     (case fst (determine_etag w g (handler ctx)) of
        None \<Rightarrow> False
      | Some e \<Rightarrow>
          200 \<le> res_status (res (handler ctx)) \<and> res_status (res (handler ctx)) < 300 \<and>
          (case req_get ''If-None-Match'' ctx of
             None \<Rightarrow> False
           | Some raw \<Rightarrow>
               if trim raw = ''*''
               then req_method (req ctx) = ''GET'' \<or> req_method (req ctx) = ''HEAD''
               else \<exists>t\<in>set (split_commas (trim raw)). stripWeak t = stripWeak e)) \<and>
   (req_get ''If-None-Match'' ctx = None \<longrightarrow>
      \<not> performs_304 (handler ctx) (etagMiddleware retained w g handler ctx)) \<and>
   (\<not> (200 \<le> res_status (res (handler ctx)) \<and> res_status (res (handler ctx)) < 300) \<longrightarrow>
      \<not> performs_304 (handler ctx) (etagMiddleware retained w g handler ctx))"
proof -
  have main: "performs_304 (handler ctx) (etagMiddleware retained w g handler ctx) =
     (case fst (determine_etag w g (handler ctx)) of
        None \<Rightarrow> False
      | Some e \<Rightarrow>
          200 \<le> res_status (res (handler ctx)) \<and> res_status (res (handler ctx)) < 300 \<and>
          (case req_get ''If-None-Match'' ctx of
             None \<Rightarrow> False
           | Some raw \<Rightarrow>
               if trim raw = ''*''
               then req_method (req ctx) = ''GET'' \<or> req_method (req ctx) = ''HEAD''
               else \<exists>t\<in>set (split_commas (trim raw)). stripWeak t = stripWeak e))"
  proof (cases "fst (determine_etag w g (handler ctx))")
    case None
    then show ?thesis
      using performs_304_needs_etag [of w g handler ctx retained] by simp
  next
    case (Some e)
    then show ?thesis
      using performs_304_iff [of w g handler ctx e retained]
      by (simp add: should_return_304_def etagMatches_def list_ex_iff split: option.splits)
  qed
  have absent: "\<not> performs_304 (handler ctx) (etagMiddleware retained w g handler ctx)"
    if "req_get ''If-None-Match'' ctx = None"
    unfolding main using that by (simp split: option.splits)
  have status: "\<not> performs_304 (handler ctx) (etagMiddleware retained w g handler ctx)"
    if "\<not> (200 \<le> res_status (res (handler ctx)) \<and> res_status (res (handler ctx)) < 300)"
    unfolding main using that by (auto split: option.splits)
  from main absent status show ?thesis
    by blast
qed

theorem downgrade_condition_witness:
  "performs_304
     (respond 200 [(''etag'', quoted ''abc'')] None
        (request_ctx ''POST'' [(''if-none-match'', ''  W/'' @ quoted ''x'' @ '' , W/'' @ quoted ''abc'')]))
     (etagMiddleware RETAINED_304_HEADERS False None
        (respond 200 [(''etag'', quoted ''abc'')] None)
        (request_ctx ''POST'' [(''if-none-match'', ''  W/'' @ quoted ''x'' @ '' , W/'' @ quoted ''abc'')]))"
proof -
  let ?ctx = "request_ctx ''POST'' [(''if-none-match'', ''  W/'' @ quoted ''x'' @ '' , W/'' @ quoted ''abc'')]"
  let ?h = "respond 200 [(''etag'', quoted ''abc'')] None"
  have d: "fst (determine_etag False None (?h ?ctx)) = Some (quoted ''abc'')"
    by code_simp
  have st: "res_status (res (?h ?ctx)) = 200"
    by code_simp
  have inm: "req_get ''If-None-Match'' ?ctx = Some (''  W/'' @ quoted ''x'' @ '' , W/'' @ quoted ''abc'')"
    by code_simp
  have tr: "trim (''  W/'' @ quoted ''x'' @ '' , W/'' @ quoted ''abc'') \<noteq> ''*''"
    by code_simp
  have sp: "split_commas (trim (''  W/'' @ quoted ''x'' @ '' , W/'' @ quoted ''abc'')) =
      [''W/'' @ quoted ''x'', ''W/'' @ quoted ''abc'']"
    by code_simp
  have sw: "stripWeak (''W/'' @ quoted ''abc'') = stripWeak (quoted ''abc'')"
    by code_simp
  show ?thesis
    using downgrade_condition [of ?h ?ctx RETAINED_304_HEADERS False None]
    by (simp add: d st inm tr sp sw del: append.simps)
qed

text \<open>
  C1 as stated fails in two places. With \<open>If-None-Match: *\<close>, the method POST and the
  ETag \<open>*\<close>, the claimed condition holds through its second disjunct, but the wildcard
  branch decides alone and there is no downgrade. With an empty \<open>If-None-Match\<close> and the
  ETag \<open>W/\<close>, the one empty candidate equals the stripped ETag and the response is
  downgraded.
\<close>

theorem downgrade_condition_counterexample:
  "\<not> (performs_304
        (respond 200 [(''etag'', ''*'')] None (request_ctx ''POST'' [(''if-none-match'', ''*'')]))
        (etagMiddleware RETAINED_304_HEADERS False None
           (respond 200 [(''etag'', ''*'')] None) (request_ctx ''POST'' [(''if-none-match'', ''*'')]))
      = claimed_304_condition ''*'' (Some ''*'') ''POST'' 200) \<and>
   performs_304
     (respond 200 [(''etag'', ''W/'')] None (request_ctx ''GET'' [(''if-none-match'', '''')]))
     (etagMiddleware RETAINED_304_HEADERS False None
        (respond 200 [(''etag'', ''W/'')] None) (request_ctx ''GET'' [(''if-none-match'', '''')]))"
  by code_simp

text \<open>
  C2 (amended). Whenever the middleware performs a 304 downgrade, for every retained list
  (the default one or a configured one, lower-cased): the status is 304 and the body
  \<open>null\<close>; every header whose lower-cased name is in the list keeps the value it had
  before the downgrade; every header whose lower-cased name is not in the list is absent;
  and the ETag header is present, with the ETag of the response, exactly when the list
  contains \<open>etag\<close>, as the default list does.
\<close>

theorem downgrade_retains_headers:
  assumes "performs_304 (handler ctx) (etagMiddleware retained w g handler ctx)"
    and "stored_names_normalised (handler ctx)"
  shows "\<exists>e. fst (determine_etag w g (handler ctx)) = Some e \<and>
           res_status (res (etagMiddleware retained w g handler ctx)) = 304 \<and>
           res_body (res (etagMiddleware retained w g handler ctx)) = None \<and>
           (\<forall>name. header_key name \<in> set retained \<and> header_key name \<noteq> ''etag'' \<longrightarrow>
              res_get name (etagMiddleware retained w g handler ctx) = res_get name (handler ctx)) \<and>
           (\<forall>name. header_key name \<notin> set retained \<longrightarrow>
              res_get name (etagMiddleware retained w g handler ctx) = None) \<and>
           res_get ''ETag'' (etagMiddleware retained w g handler ctx) =
             (if ''etag'' \<in> set retained then Some e else None) \<and>
           (retained = RETAINED_304_HEADERS \<longrightarrow>
              res_get ''ETag'' (etagMiddleware retained w g handler ctx) = Some e)"
proof -
  let ?c2 = "snd (determine_etag w g (handler ctx))"
  from assms(1) obtain e where e: "fst (determine_etag w g (handler ctx)) = Some e"
    using performs_304_needs_etag [of w g handler ctx retained]
    by (cases "fst (determine_etag w g (handler ctx))") auto
  have "should_return_304 e ctx (handler ctx)"
    using assms(1) performs_304_iff [of w g handler ctx e retained, OF e] by simp
  then have final: "etagMiddleware retained w g handler ctx =
      downgrade_304 retained (res_set ''ETag'' e ?c2)"
    by (simp add: etagMiddleware_with_etag [of w g handler ctx e retained, OF e])
  have r: "res ?c2 = res (handler ctx)"
    by (rule determine_etag_res)
  note hs = downgraded_headers [OF assms(2) r, of _ retained e]
  have tag: "res_get ''ETag'' (etagMiddleware retained w g handler ctx) =
      (if ''etag'' \<in> set retained then Some e else None)"
    by (simp add: final hs header_key_ETag)
  have "''etag'' \<in> set RETAINED_304_HEADERS"
    by (simp add: RETAINED_304_HEADERS_def)
  then have "retained = RETAINED_304_HEADERS \<longrightarrow> ''etag'' \<in> set retained"
    by simp
  with tag have dflt: "retained = RETAINED_304_HEADERS \<longrightarrow>
      res_get ''ETag'' (etagMiddleware retained w g handler ctx) = Some e"
    by (cases "''etag'' \<in> set retained") (simp_all only: if_True simp_thms)
  have keep: "\<forall>name. header_key name \<in> set retained \<and> header_key name \<noteq> ''etag'' \<longrightarrow>
      res_get name (etagMiddleware retained w g handler ctx) = res_get name (handler ctx)"
    by (simp add: final hs)
  have drop: "\<forall>name. header_key name \<notin> set retained \<longrightarrow>
      res_get name (etagMiddleware retained w g handler ctx) = None"
    by (simp add: final hs)
  have frame: "res_status (res (etagMiddleware retained w g handler ctx)) = 304"
    "res_body (res (etagMiddleware retained w g handler ctx)) = None"
    by (simp_all add: final downgrade_304_frame)
  from e frame keep drop tag dflt show ?thesis
    by blast
qed

theorem downgrade_retains_headers_witness:
  "res_headers (res (etagMiddleware [''vary'', ''etag''] False (Some toy_hash)
      (respond 200 [(''content-type'', ''text/plain''), (''vary'', ''accept'')] (Some [[1, 2], [3]]))
      (request_ctx ''GET'' [(''if-none-match'', quoted ''0a03'')]))) =
     [(''vary'', ''accept''), (''etag'', quoted ''0a03'')] \<and>
   res_get ''Vary'' (etagMiddleware [''vary'', ''etag''] False (Some toy_hash)
      (respond 200 [(''content-type'', ''text/plain''), (''vary'', ''accept'')] (Some [[1, 2], [3]]))
      (request_ctx ''GET'' [(''if-none-match'', quoted ''0a03'')])) = Some ''accept'' \<and>
   res_get ''Content-Type'' (etagMiddleware [''vary'', ''etag''] False (Some toy_hash)
      (respond 200 [(''content-type'', ''text/plain''), (''vary'', ''accept'')] (Some [[1, 2], [3]]))
      (request_ctx ''GET'' [(''if-none-match'', quoted ''0a03'')])) = None"
proof -
  let ?ctx = "request_ctx ''GET'' [(''if-none-match'', quoted ''0a03'')]"
  let ?h = "respond 200 [(''content-type'', ''text/plain''), (''vary'', ''accept'')] (Some [[1, 2], [3]])"
  let ?final = "etagMiddleware [''vary'', ''etag''] False (Some toy_hash) ?h ?ctx"
  have p: "performs_304 (?h ?ctx) ?final"
    by code_simp
  have n: "stored_names_normalised (?h ?ctx)"
    by code_simp
  have hs: "res_headers (res ?final) = [(''vary'', ''accept''), (''etag'', quoted ''0a03'')]"
    by code_simp
  have k: "header_key ''Vary'' = ''vary''" "header_key ''Content-Type'' = ''content-type''"
    by code_simp+
  have v: "res_get ''Vary'' (?h ?ctx) = Some ''accept''"
    by code_simp
  from downgrade_retains_headers [OF p n] obtain e where
    keep: "\<forall>name. header_key name \<in> set [''vary'', ''etag''] \<and> header_key name \<noteq> ''etag'' \<longrightarrow>
              res_get name ?final = res_get name (?h ?ctx)"
    and drop: "\<forall>name. header_key name \<notin> set [''vary'', ''etag''] \<longrightarrow> res_get name ?final = None"
    by blast
  have "res_get ''Vary'' ?final = Some ''accept''"
    using keep [rule_format, of "''Vary''"] by (simp add: k v)
  moreover have "res_get ''Content-Type'' ?final = None"
    using drop [rule_format, of "''Content-Type''"] by (simp add: k)
  ultimately show ?thesis
    using hs by simp
qed

text \<open>
  C2 as stated fails for a configured list without \<open>etag\<close>: the loop deletes the ETag
  header like any other, and the 304 response carries none.
\<close>

theorem downgrade_retains_headers_counterexample:
  "performs_304
     (respond 200 [(''date'', ''today'')] (Some [[1, 2], [3]])
        (request_ctx ''GET'' [(''if-none-match'', quoted ''0a03'')]))
     (etag None \<lparr>retainedHeaders = Some [''Date''], weak = None, generateDigest_option = Some toy_hash\<rparr>
        (respond 200 [(''date'', ''today'')] (Some [[1, 2], [3]]))
        (request_ctx ''GET'' [(''if-none-match'', quoted ''0a03'')])) \<and>
   res_get ''ETag''
     (etag None \<lparr>retainedHeaders = Some [''Date''], weak = None, generateDigest_option = Some toy_hash\<rparr>
        (respond 200 [(''date'', ''today'')] (Some [[1, 2], [3]]))
        (request_ctx ''GET'' [(''if-none-match'', quoted ''0a03'')])) = None"
  by code_simp

text \<open>
  C5. The middleware digests the snapshot that \<open>ctx.response.body\<close> gives, not the body:
  whenever the response is not downgraded, the body is the stream the handler set, and
  every stream the handler left still holds the same chunks, although the digest has
  drained the stream it read (the snapshot, a new stream, is left empty).
\<close>

theorem body_undisturbed:
  assumes "\<not> performs_304 (handler ctx) (etagMiddleware retained w g handler ctx)"
  shows "res_body (res (etagMiddleware retained w g handler ctx)) = res_body (res (handler ctx)) \<and>
         (\<forall>r<length (streams (env (handler ctx))).
            streams (env (etagMiddleware retained w g handler ctx)) ! r =
              streams (env (handler ctx)) ! r) \<and>
         ((res_get ''ETag'' (handler ctx) = None \<or> res_get ''ETag'' (handler ctx) = Some []) \<and>
          g \<noteq> None \<and> res_body (res (handler ctx)) \<noteq> None \<longrightarrow>
            streams (env (etagMiddleware retained w g handler ctx)) =
              streams (env (handler ctx)) @ [[]])"
proof -
  let ?c1 = "handler ctx"
  let ?c2 = "snd (determine_etag w g ?c1)"
  let ?final = "etagMiddleware retained w g handler ctx"
  have fin: "res_body (res ?final) = res_body (res ?c2) \<and> env ?final = env ?c2"
  proof (cases "fst (determine_etag w g ?c1)")
    case None
    then show ?thesis
      by (simp add: etagMiddleware_terminates_early [of w g handler ctx retained])
  next
    case (Some e)
    then have "\<not> should_return_304 e ctx ?c1"
      using assms performs_304_iff [of w g handler ctx e retained] by simp
    then show ?thesis
      by (simp add: etagMiddleware_with_etag [of w g handler ctx e retained, OF Some] res_set_frame)
  qed
  have body: "res_body (res ?final) = res_body (res ?c1)"
    using fin by (simp add: determine_etag_res)
  have same: "\<forall>r<length (streams (env ?c1)). streams (env ?final) ! r = streams (env ?c1) ! r"
    using fin determine_etag_streams [of w g ?c1] by (auto simp: nth_append)
  have snap: "streams (env ?final) = streams (env ?c1) @ [[]]"
    if "res_get ''ETag'' ?c1 = None \<or> res_get ''ETag'' ?c1 = Some []"
      and "g \<noteq> None" and "res_body (res ?c1) \<noteq> None"
  proof -
    from that(2) obtain gen where g: "g = Some gen" by auto
    from that(3) obtain r where r: "res_body (res ?c1) = Some r" by auto
    show ?thesis
      using fin by (simp add: g determine_etag_fresh [OF that(1)] r)
  qed
  from body same snap show ?thesis by blast
qed

theorem body_undisturbed_witness:
  "res_body (res (etagMiddleware RETAINED_304_HEADERS False (Some toy_hash)
      (respond 200 [(''date'', ''today'')] (Some [[1, 2], [3]]))
      (request_ctx ''GET'' []))) = Some 0 \<and>
   streams (env (etagMiddleware RETAINED_304_HEADERS False (Some toy_hash)
      (respond 200 [(''date'', ''today'')] (Some [[1, 2], [3]]))
      (request_ctx ''GET'' []))) = [[[1, 2], [3]], []] \<and>
   digest_calls (env (etagMiddleware RETAINED_304_HEADERS False (Some toy_hash)
      (respond 200 [(''date'', ''today'')] (Some [[1, 2], [3]]))
      (request_ctx ''GET'' []))) = [[1, 2, 3]]"
proof -
  let ?ctx = "request_ctx ''GET'' []"
  let ?h = "respond 200 [(''date'', ''today'')] (Some [[1, 2], [3]])"
  let ?final = "etagMiddleware RETAINED_304_HEADERS False (Some toy_hash) ?h ?ctx"
  have n: "\<not> performs_304 (?h ?ctx) ?final"
    by code_simp
  have b: "res_body (res (?h ?ctx)) = Some 0" and s: "streams (env (?h ?ctx)) = [[[1, 2], [3]]]"
    and t: "res_get ''ETag'' (?h ?ctx) = None"
    and c: "digest_calls (env ?final) = [[1, 2, 3]]"
    by code_simp+
  from body_undisturbed [OF n] b s t show ?thesis
    using c by simp
qed

text \<open>
  C6 (amended). When the handler has set a non-empty ETag header \<open>e\<close>, the middleware
  neither recomputes nor overwrites it, whatever generator is configured: no snapshot is
  taken and the hash function is not invoked, the 304 condition is evaluated on \<open>e\<close>, and
  the final ETag header is \<open>e\<close>, except that a 304 downgrade under a retained list
  without \<open>etag\<close> deletes the header.
\<close>

theorem existing_etag_kept:
  assumes "res_get ''ETag'' (handler ctx) = Some e" and "e \<noteq> []"
    and "stored_names_normalised (handler ctx)"
  shows "env (etagMiddleware retained w g handler ctx) = env (handler ctx) \<and>
         performs_304 (handler ctx) (etagMiddleware retained w g handler ctx) =
           (200 \<le> res_status (res (handler ctx)) \<and> res_status (res (handler ctx)) < 300 \<and>
            etagMatches e (map_option trim (req_get ''If-None-Match'' ctx)) (req_method (req ctx))) \<and>
         res_get ''ETag'' (etagMiddleware retained w g handler ctx) =
           (if performs_304 (handler ctx) (etagMiddleware retained w g handler ctx) \<and>
               ''etag'' \<notin> set retained
            then None else Some e)"
proof -
  let ?c1 = "handler ctx"
  let ?final = "etagMiddleware retained w g handler ctx"
  have d: "determine_etag w g ?c1 = (Some e, ?c1)"
    using assms(1,2) by (rule determine_etag_existing)
  then have e: "fst (determine_etag w g ?c1) = Some e" and c2: "snd (determine_etag w g ?c1) = ?c1"
    by simp_all
  note mw = etagMiddleware_with_etag [of w g handler ctx e retained, OF e, unfolded c2]
  note p = performs_304_iff [of w g handler ctx e retained, OF e]
  have "env ?final = env ?c1"
    by (simp add: mw downgrade_304_frame res_set_frame)
  moreover have "res_get ''ETag'' ?final =
      (if performs_304 ?c1 ?final \<and> ''etag'' \<notin> set retained then None else Some e)"
  proof (cases "should_return_304 e ctx ?c1")
    case True
    then show ?thesis
      unfolding p by (simp add: mw downgraded_headers [OF assms(3) refl] header_key_ETag)
  next
    case False
    then show ?thesis
      unfolding p by (simp add: mw res_get_res_set)
  qed
  ultimately show ?thesis
    using p by (simp add: should_return_304_def)
qed

theorem existing_etag_kept_witness:
  "etagMiddleware RETAINED_304_HEADERS True (Some toy_hash)
      (respond 200 [(''etag'', quoted ''v1'')] (Some [[1, 2], [3]]))
      (request_ctx ''GET'' [(''if-none-match'', quoted ''0a03'')]) =
   respond 200 [(''etag'', quoted ''v1'')] (Some [[1, 2], [3]])
      (request_ctx ''GET'' [(''if-none-match'', quoted ''0a03'')]) \<and>
   res_get ''ETag'' (etagMiddleware RETAINED_304_HEADERS True (Some toy_hash)
      (respond 200 [(''etag'', quoted ''v1'')] (Some [[1, 2], [3]]))
      (request_ctx ''GET'' [(''if-none-match'', quoted ''0a03'')])) = Some (quoted ''v1'') \<and>
   digest_calls (env (etagMiddleware RETAINED_304_HEADERS True (Some toy_hash)
      (respond 200 [(''etag'', quoted ''v1'')] (Some [[1, 2], [3]]))
      (request_ctx ''GET'' [(''if-none-match'', quoted ''0a03'')]))) = []"
proof -
  let ?ctx = "request_ctx ''GET'' [(''if-none-match'', quoted ''0a03'')]"
  let ?h = "respond 200 [(''etag'', quoted ''v1'')] (Some [[1, 2], [3]])"
  let ?final = "etagMiddleware RETAINED_304_HEADERS True (Some toy_hash) ?h ?ctx"
  have a: "res_get ''ETag'' (?h ?ctx) = Some (quoted ''v1'')" and b: "quoted ''v1'' \<noteq> []"
    and n: "stored_names_normalised (?h ?ctx)"
    by code_simp+
  have m: "\<not> etagMatches (quoted ''v1'') (map_option trim (req_get ''If-None-Match'' ?ctx))
      (req_method (req ?ctx))"
    by code_simp
  have c: "digest_calls (env (?h ?ctx)) = []" and same: "?final = ?h ?ctx"
    by code_simp+
  from existing_etag_kept [of ?h ?ctx "quoted ''v1''" RETAINED_304_HEADERS True "Some toy_hash", OF a b n]
    m c same
  show ?thesis by simp
qed

text \<open>
  C6 as stated fails when the response is downgraded under a retained list without
  \<open>etag\<close>: the handler's ETag \<open>"v1"\<close> is deleted, and the final response has no ETag header.
\<close>

theorem existing_etag_kept_counterexample:
  "res_get ''ETag''
     (respond 200 [(''etag'', quoted ''v1'')] (Some [[1, 2], [3]])
        (request_ctx ''GET'' [(''if-none-match'', quoted ''v1'')])) = Some (quoted ''v1'') \<and>
   res_get ''ETag''
     (etag (Some toy_hash) \<lparr>retainedHeaders = Some [''Cache-Control''], weak = None, generateDigest_option = None\<rparr>
        (respond 200 [(''etag'', quoted ''v1'')] (Some [[1, 2], [3]]))
        (request_ctx ''GET'' [(''if-none-match'', quoted ''v1'')])) \<noteq> Some (quoted ''v1'')"
  by code_simp

text \<open>
  C7 (amended). A freshly computed digest \<open>d\<close> gives the ETag \<open>W/"d"\<close> (the characters
  W and /, a double quote, the digest, a double quote) when the \<open>weak\<close> option is true, and
  \<open>"d"\<close> (the digest between two double quotes) when it is false or unset. That is the
  value the middleware determines and sets, and the value of the ETag header of the final
  response, except that a 304 downgrade under a retained list without \<open>etag\<close> deletes the
  header. The weak tag matches the strong validator \<open>"d"\<close> of a client, whatever the
  method.
\<close>

theorem fresh_etag_format:
  assumes "res_get ''ETag'' (handler ctx) = None \<or> res_get ''ETag'' (handler ctx) = Some []"
    and "res_body (res (handler ctx)) = Some r"
    and "stream_at (streams (env (handler ctx))) r \<noteq> []"
    and "initializeGenerator platform (generateDigest_option options) = Some gen"
    and "stored_names_normalised (handler ctx)"
    and "d = hex_encode (gen (concat (stream_at (streams (env (handler ctx))) r)))"
    and "tag = (if weak options = Some True
                then CHR ''W'' # CHR ''/'' # CHR 0x22 # d @ [CHR 0x22]
                else CHR 0x22 # d @ [CHR 0x22])"
  shows "fst (determine_etag (weak options = Some True) (Some gen) (handler ctx)) = Some tag \<and>
         res_get ''ETag'' (etag platform options handler ctx) =
           (if performs_304 (handler ctx) (etag platform options handler ctx) \<and>
               ''etag'' \<notin> set (retained_of options)
            then None else Some tag) \<and>
         etagMatches (CHR ''W'' # CHR ''/'' # CHR 0x22 # d @ [CHR 0x22])
           (map_option trim (Some (CHR 0x22 # d @ [CHR 0x22]))) m"
proof -
  let ?c1 = "handler ctx"
  let ?w = "weak options = Some True"
  let ?final = "etagMiddleware (retained_of options) ?w (Some gen) handler ctx"
  have q: "quoted d = CHR 0x22 # d @ [CHR 0x22]"
    by (simp add: quoted_def dquote_def)
  have tag: "tag = (if ?w then ''W/'' @ quoted d else quoted d)"
    using assms(7) by (simp add: q)
  have fin: "etag platform options handler ctx = ?final"
    using assms(4) by (simp add: etag_def split: option.splits)
  have e: "fst (determine_etag ?w (Some gen) ?c1) = Some tag"
    using assms(2,3,6) tag by (simp add: determine_etag_fresh [OF assms(1)])
  note mw = etagMiddleware_with_etag [of ?w "Some gen" handler ctx tag "retained_of options", OF e]
  note p = performs_304_iff [of ?w "Some gen" handler ctx tag "retained_of options", OF e]
  have r: "res (snd (determine_etag ?w (Some gen) ?c1)) = res ?c1"
    by (rule determine_etag_res)
  have "res_get ''ETag'' ?final =
      (if performs_304 ?c1 ?final \<and> ''etag'' \<notin> set (retained_of options) then None else Some tag)"
  proof (cases "should_return_304 tag ctx ?c1")
    case True
    then show ?thesis
      unfolding p by (simp add: mw downgraded_headers [OF assms(5) r] header_key_ETag)
  next
    case False
    then show ?thesis
      unfolding p by (simp add: mw res_get_res_set)
  qed
  moreover have "etagMatches (''W/'' @ quoted d) (map_option trim (Some (quoted d))) m"
    unfolding assms(6) by (rule weak_matches_strong) (rule hex_encode_no_comma)
  then have "etagMatches (CHR ''W'' # CHR ''/'' # CHR 0x22 # d @ [CHR 0x22])
      (map_option trim (Some (CHR 0x22 # d @ [CHR 0x22]))) m"
    by (simp add: q)
  ultimately show ?thesis
    using e by (simp only: fin simp_thms)
qed

theorem fresh_etag_format_witness:
  "res_get ''ETag''
     (etag None \<lparr>retainedHeaders = None, weak = Some True, generateDigest_option = Some toy_hash\<rparr>
        (respond 200 [(''date'', ''today'')] (Some [[1, 2], [3]]))
        (request_ctx ''GET'' [(''if-none-match'', CHR 0x22 # ''0a03'' @ [CHR 0x22])])) =
     Some (CHR ''W'' # CHR ''/'' # CHR 0x22 # ''0a03'' @ [CHR 0x22]) \<and>
   res_get ''ETag''
     (etag None \<lparr>retainedHeaders = None, weak = None, generateDigest_option = Some toy_hash\<rparr>
        (respond 200 [(''date'', ''today'')] (Some [[1, 2], [3]]))
        (request_ctx ''GET'' [])) = Some (CHR 0x22 # ''0a03'' @ [CHR 0x22]) \<and>
   etagMatches (CHR ''W'' # CHR ''/'' # CHR 0x22 # ''0a03'' @ [CHR 0x22])
     (Some (CHR 0x22 # ''0a03'' @ [CHR 0x22])) ''GET''"
proof -
  let ?h = "respond 200 [(''date'', ''today'')] (Some [[1, 2], [3]])"
  let ?c1 = "request_ctx ''GET'' [(''if-none-match'', CHR 0x22 # ''0a03'' @ [CHR 0x22])]"
  let ?c2 = "request_ctx ''GET'' []"
  let ?o1 = "\<lparr>retainedHeaders = None, weak = Some True, generateDigest_option = Some toy_hash\<rparr>"
  let ?o2 = "\<lparr>retainedHeaders = None, weak = None, generateDigest_option = Some toy_hash\<rparr>"
  have a1: "res_get ''ETag'' (?h ?c1) = None \<or> res_get ''ETag'' (?h ?c1) = Some []"
    and a2: "res_get ''ETag'' (?h ?c2) = None \<or> res_get ''ETag'' (?h ?c2) = Some []"
    by code_simp+
  have b1: "res_body (res (?h ?c1)) = Some 0" and b2: "res_body (res (?h ?c2)) = Some 0"
    by code_simp+
  have s1: "stream_at (streams (env (?h ?c1))) 0 \<noteq> []" and s2: "stream_at (streams (env (?h ?c2))) 0 \<noteq> []"
    by code_simp+
  have g1: "initializeGenerator None (generateDigest_option ?o1) = Some toy_hash"
    and g2: "initializeGenerator None (generateDigest_option ?o2) = Some toy_hash"
    by (simp_all add: initializeGenerator_def)
  have n1: "stored_names_normalised (?h ?c1)" and n2: "stored_names_normalised (?h ?c2)"
    by code_simp+
  have d1: "hex_encode (toy_hash (concat (stream_at (streams (env (?h ?c1))) 0))) = ''0a03''"
    and d2: "hex_encode (toy_hash (concat (stream_at (streams (env (?h ?c2))) 0))) = ''0a03''"
    by code_simp+
  have r: "''etag'' \<in> set (retained_of ?o1)" "''etag'' \<in> set (retained_of ?o2)"
    by code_simp+
  have t: "trim (CHR 0x22 # ''0a03'' @ [CHR 0x22]) = CHR 0x22 # ''0a03'' @ [CHR 0x22]"
    by code_simp
  from fresh_etag_format [of ?h ?c1 0 None ?o1 toy_hash "''0a03''" _ "''GET''",
      OF a1 b1 s1 g1 n1 d1 [symmetric] refl]
    fresh_etag_format [of ?h ?c2 0 None ?o2 toy_hash "''0a03''" _ "''GET''",
      OF a2 b2 s2 g2 n2 d2 [symmetric] refl] r t
  show ?thesis by simp
qed

text \<open>
  C7 as stated fails when the response is downgraded under a retained list without
  \<open>etag\<close>: the digest \<open>0a03\<close> is computed with the \<open>weak\<close> option true, the tag matches the
  validator of the request, and the loop of the downgrade deletes the ETag header, so the
  response emits no \<open>W/"0a03"\<close>.
\<close>

theorem fresh_etag_format_counterexample:
  "digest_calls (env
     (etag None \<lparr>retainedHeaders = Some [''Vary''], weak = Some True, generateDigest_option = Some toy_hash\<rparr>
        (respond 200 [(''vary'', ''accept'')] (Some [[1, 2], [3]]))
        (request_ctx ''GET'' [(''if-none-match'', CHR 0x22 # ''0a03'' @ [CHR 0x22])]))) = [[1, 2, 3]] \<and>
   hex_encode (toy_hash [1, 2, 3]) = ''0a03'' \<and>
   res_get ''ETag''
     (etag None \<lparr>retainedHeaders = Some [''Vary''], weak = Some True, generateDigest_option = Some toy_hash\<rparr>
        (respond 200 [(''vary'', ''accept'')] (Some [[1, 2], [3]]))
        (request_ctx ''GET'' [(''if-none-match'', CHR 0x22 # ''0a03'' @ [CHR 0x22])])) \<noteq>
     Some (CHR ''W'' # CHR ''/'' # CHR 0x22 # ''0a03'' @ [CHR 0x22])"
  by code_simp

text \<open>
  C8. When the response carries no ETag (none, or an empty one) and no digest generator
  is configured (no \<open>generateDigest\<close> option and no platform \<open>crypto.subtle\<close>), the
  middleware returns what the handler left: status, headers, body and streams are
  unchanged, no ETag is added, whatever the \<open>If-None-Match\<close> header says.
\<close>

theorem no_generator_unmodified:
  assumes "res_get ''ETag'' (handler ctx) = None \<or> res_get ''ETag'' (handler ctx) = Some []"
    and "generateDigest_option options = None"
  shows "etag None options handler ctx = handler ctx"
proof -
  have "determine_etag w None (handler ctx) = (None, handler ctx)" for w
    using assms(1) by (rule determine_etag_no_generator)
  then show ?thesis
    by (simp add: etag_def initializeGenerator_def assms(2) etagMiddleware_def)
qed

theorem no_generator_unmodified_witness:
  "etag None \<lparr>retainedHeaders = None, weak = None, generateDigest_option = None\<rparr>
     (respond 200 [(''date'', ''today'')] (Some [[1, 2], [3]]))
     (request_ctx ''GET'' [(''if-none-match'', ''*'')]) =
   respond 200 [(''date'', ''today'')] (Some [[1, 2], [3]])
     (request_ctx ''GET'' [(''if-none-match'', ''*'')])"
proof -
  let ?h = "respond 200 [(''date'', ''today'')] (Some [[1, 2], [3]])"
  let ?c = "request_ctx ''GET'' [(''if-none-match'', ''*'')]"
  have a: "res_get ''ETag'' (?h ?c) = None \<or> res_get ''ETag'' (?h ?c) = Some []"
    by code_simp
  have b: "generateDigest_option \<lparr>retainedHeaders = None, weak = None, generateDigest_option = None\<rparr> = None"
    by simp
  from no_generator_unmodified [of ?h ?c, OF a b] show ?thesis .
qed

end
